theory Spec2Isabelle
  imports Complex_Main "HOL-Library.Log_Nat"
begin

section \<open>Data model\<close>

text \<open>
  The service of \<^verbatim>\<open>main.py\<close> (\<^verbatim>\<open>GroupImagesService\<close>) decodes two byte buffers
  with Pillow, merges the two rasters one below the other or side by side, and encodes the
  merged raster as JPEG. The embedding follows the source line by line. Pillow itself is
  not part of the repository: its decoder, its resampling filter, its mode conversion and
  its encoder are parameters (\<open>pillow\<close> below), and the operations the service calls
  (\<^verbatim>\<open>Image.open\<close>, \<^verbatim>\<open>resize\<close>, \<^verbatim>\<open>Image.new\<close>, \<^verbatim>\<open>paste\<close>, \<^verbatim>\<open>save\<close>) are written
  out over an explicit heap of image objects, so that what each call allocates and what it
  overwrites is visible.
\<close>

datatype MergeOrientation = HORIZONTAL | VERTICAL

text \<open>
  Python does not check the annotation \<^verbatim>\<open>orientation: MergeOrientation\<close>: the field can
  hold any object. \<open>Other r\<close> is an object that is no member of the enum (a string, a
  number, \<^verbatim>\<open>None\<close>; \<open>r\<close> is its \<^verbatim>\<open>repr\<close>) and compares unequal to both members.
\<close>

datatype orientation_value = Member MergeOrientation | Other string

text \<open>A \<^verbatim>\<open>bytes\<close> object: the list of its bytes, each a number below 256.\<close>

type_synonym bytes = "nat list"

record GroupImagesInputDTO =
  first_image_in_bytes :: bytes
  second_image_in_bytes :: bytes
  orientation :: orientation_value

text \<open>
  The exceptions that leave the service: \<^verbatim>\<open>ZeroDivisionError\<close> from \<^verbatim>\<open>/\<close>,
  the \<^verbatim>\<open>ValueError\<close> raised by \<^verbatim>\<open>__call__\<close> itself, and any exception raised
  inside a Pillow call (\<open>PillowError\<close>, with Pillow's message). \<^verbatim>\<open>OverflowError\<close> is
  what \<^verbatim>\<open>/\<close> raises for a quotient beyond the largest double, of at least
  \<open>2 ^ 1024\<close>; only the double-precision division \<open>int_truediv_double\<close> has it.
\<close>

datatype error =
  ZeroDivisionError | OverflowError | ValueError string | PillowError string

text \<open>
  A Pillow image object: its size, its mode string and its pixel data
  (\<^verbatim>\<open>getpixel((x, y))\<close> for \<open>0 \<le> x < width\<close> and \<open>0 \<le> y < height\<close>).
  The heap is the list of the image objects allocated so far; a reference is an index
  into it, and a new object is appended. A reference that a Python program holds is that
  of an allocated object, an index below the length of the heap.
\<close>

record 'px image =
  width :: int
  height :: int
  mode :: string
  pixel :: "int \<Rightarrow> int \<Rightarrow> 'px"

type_synonym 'px heap = "'px image list"

type_synonym ref = nat

text \<open>
  The parts of Pillow that compute pixel values or bytes:
  \<^item> \<open>decode\<close>: what \<^verbatim>\<open>Image.open(io.BytesIO(b))\<close> makes of a buffer, an image or an
    exception;
  \<^item> \<open>resample\<close>: \<open>resample im w h x y\<close> is the pixel at \<open>(x, y)\<close> of \<open>im\<close> resampled to
    \<open>w \<times> h\<close> with the LANCZOS filter;
  \<^item> \<open>blank\<close>: the pixel of colour 0 in a mode, with which \<^verbatim>\<open>Image.new\<close> fills;
  \<^item> \<open>convert\<close>: \<open>convert src dst p\<close> is the pixel \<open>p\<close> of a \<open>src\<close>-mode image as
    \<^verbatim>\<open>paste\<close> stores it in a \<open>dst\<close>-mode image;
  \<^item> \<open>encode\<close>: \<^verbatim>\<open>save(buffer, format="JPEG", quality=85)\<close>, the bytes or an exception.
\<close>

record 'px pillow =
  decode :: "bytes \<Rightarrow> string + 'px image"
  resample :: "'px image \<Rightarrow> int \<Rightarrow> int \<Rightarrow> int \<Rightarrow> int \<Rightarrow> 'px"
  blank :: "string \<Rightarrow> 'px"
  convert :: "string \<Rightarrow> string \<Rightarrow> 'px \<Rightarrow> 'px"
  encode :: "'px image \<Rightarrow> string + bytes"

section \<open>Python arithmetic\<close>

text \<open>
  \<^verbatim>\<open>int(a / b)\<close> on Python integers. \<^verbatim>\<open>a / b\<close> raises \<^verbatim>\<open>ZeroDivisionError\<close> when
  \<open>b\<close> is 0; otherwise it is the quotient, and \<^verbatim>\<open>int\<close> drops its fractional part
  (truncation towards zero, not \<^verbatim>\<open>//\<close>'s floor). Python holds the quotient as the
  nearest double; \<open>int_truediv_double\<close> below is the computation with that rounding, and
  \<open>int_truediv_double_exact\<close> shows that it gives the integer part of the exact quotient
  as long as \<open>\<bar>a\<bar> \<le> 2 ^ 52\<close>. In the service \<open>a\<close> is a height times the target
  width (or a width times the target height), which the resized raster has as its number
  of pixels up to rounding: it stays far below \<open>2 ^ 52\<close> for every raster that fits into
  memory. The embedding of the service therefore takes the quotient exactly.
\<close>

definition int_truediv :: "int \<Rightarrow> int \<Rightarrow> error + int" where
  "int_truediv a b =
     (if b = 0 then Inl ZeroDivisionError
      else Inr (sgn a * sgn b * (\<bar>a\<bar> div \<bar>b\<bar>)))"

section \<open>The Pillow calls of the service\<close>

text \<open>\<^verbatim>\<open>Image.open(io.BytesIO(b))\<close>: a new image object, or the decoder's exception.\<close>

definition Image_open :: "'px pillow \<Rightarrow> 'px heap \<Rightarrow> bytes \<Rightarrow> error + ('px heap \<times> ref)" where
  "Image_open L st b =
     (case decode L b of
        Inl msg \<Rightarrow> Inl (PillowError msg)
      | Inr im \<Rightarrow> Inr (st @ [im], length st))"

text \<open>
  The raster that \<^verbatim>\<open>im.resize((w, h), Image.Resampling.LANCZOS)\<close> returns: a copy of
  \<open>im\<close> when the size does not change, otherwise the resampled raster, in the mode of
  \<open>im\<close>.
\<close>

definition resized :: "'px pillow \<Rightarrow> 'px image \<Rightarrow> int \<Rightarrow> int \<Rightarrow> 'px image" where
  "resized L im w h =
     (if (width im, height im) = (w, h) then im
      else \<lparr>width = w, height = h, mode = mode im, pixel = resample L im w h\<rparr>)"

text \<open>
  \<^verbatim>\<open>im.resize((w, h), Image.Resampling.LANCZOS)\<close> allocates that raster as a new image
  object and leaves \<open>im\<close> as it is. Pillow refuses to resample to a size below 1.
\<close>

definition Image_resize ::
  "'px pillow \<Rightarrow> 'px heap \<Rightarrow> ref \<Rightarrow> int \<times> int \<Rightarrow> error + ('px heap \<times> ref)" where
  "Image_resize L st im sz =
     (let self = st ! im; (w, h) = sz in
      if (width self, height self) \<noteq> (w, h) \<and> (w < 1 \<or> h < 1)
      then Inl (PillowError ''height and width must be > 0'')
      else Inr (st @ [resized L self w h], length st))"

text \<open>
  \<^verbatim>\<open>Image.new(mode, (w, h))\<close>: a new image object in the given mode, filled
  with colour 0. Pillow refuses a negative size. The service asks for mode \<^verbatim>\<open>"RGB"\<close>,
  Pillow's mode of three 8-bit bands R, G, B, with no alpha band.
\<close>

definition canvas :: "'px pillow \<Rightarrow> string \<Rightarrow> int \<Rightarrow> int \<Rightarrow> 'px image" where
  "canvas L m w h = \<lparr>width = w, height = h, mode = m, pixel = (\<lambda>x y. blank L m)\<rparr>"

definition Image_new ::
  "'px pillow \<Rightarrow> 'px heap \<Rightarrow> string \<Rightarrow> int \<times> int \<Rightarrow> error + ('px heap \<times> ref)" where
  "Image_new L st m sz =
     (let (w, h) = sz in
      if w < 0 \<or> h < 0 then Inl (PillowError ''Width and height must be >= 0'')
      else Inr (st @ [canvas L m w h], length st))"

text \<open>
  \<^verbatim>\<open>dst.paste(src, (x0, y0))\<close> overwrites, in the object \<open>dst\<close>, the region of the
  size of \<open>src\<close> whose upper left corner is \<open>(x0, y0)\<close> with the pixels of \<open>src\<close>,
  converted to the mode of \<open>dst\<close>. Size and mode of \<open>dst\<close> stay; \<open>src\<close> is only read.
\<close>

definition pasted :: "'px pillow \<Rightarrow> 'px image \<Rightarrow> 'px image \<Rightarrow> int \<Rightarrow> int \<Rightarrow> 'px image" where
  "pasted L d s x0 y0 =
     d\<lparr>pixel := (\<lambda>x y.
         if x0 \<le> x \<and> x < x0 + width s \<and> y0 \<le> y \<and> y < y0 + height s
         then convert L (mode s) (mode d) (pixel s (x - x0) (y - y0))
         else pixel d x y)\<rparr>"

definition Image_paste ::
  "'px pillow \<Rightarrow> 'px heap \<Rightarrow> ref \<Rightarrow> ref \<Rightarrow> int \<times> int \<Rightarrow> 'px heap" where
  "Image_paste L st dst src box =
     (let (x0, y0) = box in st[dst := pasted L (st ! dst) (st ! src) x0 y0])"

section \<open>GroupImagesService\<close>

text \<open>\<^verbatim>\<open>_merge_images_vertically(image1, image2)\<close>, lines 48 to 66.\<close>

definition merge_images_vertically ::
  "'px pillow \<Rightarrow> 'px heap \<Rightarrow> ref \<Rightarrow> ref \<Rightarrow> error + ('px heap \<times> ref)" where
  "merge_images_vertically L st image1 image2 =
     (let max_width = max (width (st ! image1)) (width (st ! image2)) in
      case int_truediv (height (st ! image1) * max_width) (width (st ! image1)) of
        Inl e \<Rightarrow> Inl e
      | Inr h1 \<Rightarrow>
      (case Image_resize L st image1 (max_width, h1) of
        Inl e \<Rightarrow> Inl e
      | Inr (st1, image1') \<Rightarrow>
      (case int_truediv (height (st1 ! image2) * max_width) (width (st1 ! image2)) of
        Inl e \<Rightarrow> Inl e
      | Inr h2 \<Rightarrow>
      (case Image_resize L st1 image2 (max_width, h2) of
        Inl e \<Rightarrow> Inl e
      | Inr (st2, image2') \<Rightarrow>
      (let combined_height = height (st2 ! image1') + height (st2 ! image2') in
       case Image_new L st2 ''RGB'' (max_width, combined_height) of
        Inl e \<Rightarrow> Inl e
      | Inr (st3, result) \<Rightarrow>
      (let st4 = Image_paste L st3 result image1' (0, 0);
           st5 = Image_paste L st4 result image2' (0, height (st4 ! image1'))
       in Inr (st5, result)))))))"

text \<open>\<^verbatim>\<open>_merge_images_horizontally(image1, image2)\<close>, lines 68 to 86.\<close>

definition merge_images_horizontally ::
  "'px pillow \<Rightarrow> 'px heap \<Rightarrow> ref \<Rightarrow> ref \<Rightarrow> error + ('px heap \<times> ref)" where
  "merge_images_horizontally L st image1 image2 =
     (let max_height = max (height (st ! image1)) (height (st ! image2)) in
      case int_truediv (width (st ! image1) * max_height) (height (st ! image1)) of
        Inl e \<Rightarrow> Inl e
      | Inr w1 \<Rightarrow>
      (case Image_resize L st image1 (w1, max_height) of
        Inl e \<Rightarrow> Inl e
      | Inr (st1, image1') \<Rightarrow>
      (case int_truediv (width (st1 ! image2) * max_height) (height (st1 ! image2)) of
        Inl e \<Rightarrow> Inl e
      | Inr w2 \<Rightarrow>
      (case Image_resize L st1 image2 (w2, max_height) of
        Inl e \<Rightarrow> Inl e
      | Inr (st2, image2') \<Rightarrow>
      (let combined_width = width (st2 ! image1') + width (st2 ! image2') in
       case Image_new L st2 ''RGB'' (combined_width, max_height) of
        Inl e \<Rightarrow> Inl e
      | Inr (st3, result) \<Rightarrow>
      (let st4 = Image_paste L st3 result image1' (0, 0);
           st5 = Image_paste L st4 result image2' (width (st4 ! image1'), 0)
       in Inr (st5, result)))))))"

text \<open>\<^verbatim>\<open>_image_to_bytes(image)\<close>, lines 88 to 95: the JPEG bytes of the image.\<close>

definition image_to_bytes :: "'px pillow \<Rightarrow> 'px heap \<Rightarrow> ref \<Rightarrow> error + bytes" where
  "image_to_bytes L st im =
     (case encode L (st ! im) of
        Inl msg \<Rightarrow> Inl (PillowError msg)
      | Inr b \<Rightarrow> Inr b)"

text \<open>
  \<^verbatim>\<open>__call__(input_data)\<close>, lines 29 to 46. Both buffers are decoded before the
  orientation is looked at. The result is the heap after the call, the reference of the
  merged image and the bytes returned.
\<close>

definition call ::
  "'px pillow \<Rightarrow> 'px heap \<Rightarrow> GroupImagesInputDTO \<Rightarrow> error + ('px heap \<times> ref \<times> bytes)" where
  "call L st input_data =
     (case Image_open L st (first_image_in_bytes input_data) of
        Inl e \<Rightarrow> Inl e
      | Inr (st1, image1) \<Rightarrow>
      (case Image_open L st1 (second_image_in_bytes input_data) of
        Inl e \<Rightarrow> Inl e
      | Inr (st2, image2) \<Rightarrow>
      (case (if orientation input_data = Member VERTICAL
               then merge_images_vertically L st2 image1 image2
             else if orientation input_data = Member HORIZONTAL
               then merge_images_horizontally L st2 image1 image2
             else Inl (ValueError ''Unsupported merge orientation'')) of
        Inl e \<Rightarrow> Inl e
      | Inr (st3, merged_image) \<Rightarrow>
      (case image_to_bytes L st3 merged_image of
        Inl e \<Rightarrow> Inl e
      | Inr b \<Rightarrow> Inr (st3, merged_image, b)))))"

section \<open>Observing a run\<close>

text \<open>
  A run of a merge ends in an exception or in a heap and the reference of the merged
  image. \<open>object_at i\<close> is the image object \<open>i\<close> of the final heap, \<open>size_at i\<close> its
  \<^verbatim>\<open>size\<close>, \<open>merged_raster\<close> the merged image and \<open>merged_size\<close> its size; each passes the
  exception on. \<open>outcome\<close> is what the caller of \<^verbatim>\<open>__call__\<close> can tell of a run: the
  exception, or the size of the merged raster and the bytes returned.
\<close>

definition object_at :: "ref \<Rightarrow> error + ('px heap \<times> ref) \<Rightarrow> error + 'px image" where
  "object_at i run = (case run of Inl e \<Rightarrow> Inl e | Inr (st, res) \<Rightarrow> Inr (st ! i))"

definition size_at :: "ref \<Rightarrow> error + ('px heap \<times> ref) \<Rightarrow> error + (int \<times> int)" where
  "size_at i run =
     (case run of Inl e \<Rightarrow> Inl e | Inr (st, res) \<Rightarrow> Inr (width (st ! i), height (st ! i)))"


definition merged_size :: "error + ('px heap \<times> ref) \<Rightarrow> error + (int \<times> int)" where
  "merged_size run =
     (case run of Inl e \<Rightarrow> Inl e | Inr (st, res) \<Rightarrow> Inr (width (st ! res), height (st ! res)))"


section \<open>Rounding as the specification words it\<close>


definition round_half_even :: "int \<Rightarrow> int \<Rightarrow> int" where
  "round_half_even a b =
     (let q = a div b; r = a mod b in
      if 2 * r < b then q
      else if b < 2 * r then q + 1
      else if even q then q else q + 1)"

section \<open>The quotient in double precision\<close>

text \<open>
  \<open>floor_log2 a b\<close> is the binary exponent of \<open>a / b\<close> for positive \<open>a\<close> and \<open>b\<close>, the
  \<open>f\<close> with \<open>2 ^ f \<le> a / b < 2 ^ (f + 1)\<close>: the difference of the bit lengths, or
  one less.
\<close>

definition floor_log2 :: "int \<Rightarrow> int \<Rightarrow> int" where
  "floor_log2 a b =
     (let d = bitlen a - bitlen b in
      if b * 2 ^ nat d \<le> a * 2 ^ nat (- d) then d else d - 1)"

text \<open>
  \<^verbatim>\<open>int(a / b)\<close> as CPython computes it. The quotient is rounded, halves to even, to
  a double \<open>m / 2 ^ k\<close> with a mantissa \<open>m\<close> of 53 bits (less in the subnormal range,
  where \<open>k\<close> stops at 1074), \<^verbatim>\<open>OverflowError\<close> is raised when that double would
  reach \<open>2 ^ 1024\<close>, and \<^verbatim>\<open>int\<close> drops the fractional part of the double.
\<close>

definition int_truediv_double :: "int \<Rightarrow> int \<Rightarrow> error + int" where
  "int_truediv_double a b =
     (if b = 0 then Inl ZeroDivisionError
      else if a = 0 then Inr 0
      else
        let k = min 1074 (52 - floor_log2 \<bar>a\<bar> \<bar>b\<bar>);
            m = round_half_even (\<bar>a\<bar> * 2 ^ nat k) (\<bar>b\<bar> * 2 ^ nat (- k))
        in if 2 ^ 1024 * 2 ^ nat k \<le> m * 2 ^ nat (- k) then Inl OverflowError
           else Inr (sgn a * sgn b * (m * 2 ^ nat (- k) div 2 ^ nat k)))"

section \<open>A small codec for concrete runs\<close>

text \<open>
  Concrete runs need concrete collaborators. The toy codec below reads a buffer of two
  bytes \<open>[w, h]\<close> as a uniformly grey RGBA raster of that size and rejects every other
  buffer; it resamples by nearest neighbour, stores pixels unconverted, and encodes an
  image as its two size bytes.
\<close>

definition toy_pillow :: "nat pillow" where
  "toy_pillow =
     \<lparr>decode = (\<lambda>b. case b of
          [w, h] \<Rightarrow> Inr \<lparr>width = int w, height = int h, mode = ''RGBA'',
                         pixel = (\<lambda>x y. 128)\<rparr>
        | _ \<Rightarrow> Inl ''cannot identify image file''),
      resample = (\<lambda>im w h x y. pixel im (x * width im div w) (y * height im div h)),
      blank = (\<lambda>m. 0),
      convert = (\<lambda>src dst p. p),
      encode = (\<lambda>im. Inr [nat (width im), nat (height im)])\<rparr>"


section \<open>Facts about the library calls\<close>

lemma int_truediv_nonneg: "0 \<le> a \<Longrightarrow> 0 < b \<Longrightarrow> int_truediv a b = Inr (a div b)"
  by (cases "a = 0") (auto simp: int_truediv_def)


lemma resized_simps [simp]:
  "width (resized L im w h) = w" "height (resized L im w h) = h"
  "mode (resized L im w h) = mode im"
  by (auto simp: resized_def)

lemma resized_same: "resized L im (width im) (height im) = im"
  by (simp add: resized_def)

lemma canvas_simps [simp]:
  "width (canvas L m w h) = w" "height (canvas L m w h) = h" "mode (canvas L m w h) = m"
  "pixel (canvas L m w h) x y = blank L m"
  by (simp_all add: canvas_def)

lemma pasted_simps [simp]:
  "width (pasted L d s x0 y0) = width d" "height (pasted L d s x0 y0) = height d"
  "mode (pasted L d s x0 y0) = mode d"
  by (simp_all add: pasted_def)



lemma Image_resize_pos:
  "1 \<le> w \<Longrightarrow> 1 \<le> h \<Longrightarrow>
   Image_resize L st im (w, h) = Inr (st @ [resized L (st ! im) w h], length st)"
  by (simp add: Image_resize_def Let_def)

lemma Image_new_nonneg:
  "0 \<le> w \<Longrightarrow> 0 \<le> h \<Longrightarrow> Image_new L st m (w, h) = Inr (st @ [canvas L m w h], length st)"
  by (simp add: Image_new_def)

lemma Image_paste_last:
  "src < length st \<Longrightarrow>
   Image_paste L (st @ [d]) (length st) src (x0, y0) = st @ [pasted L d (st ! src) x0 y0]"
  by (simp add: Image_paste_def nth_append)

lemma scaled_ge:
  fixes w h t :: int
  assumes "0 < w" "0 < h" "w \<le> t"
  shows "h \<le> h * t div w"
proof -
  have "h * w \<le> h * t" using assms by (simp add: mult_left_mono)
  then have "h * w div w \<le> h * t div w" using assms(1) by (rule zdiv_mono1)
  then show ?thesis using assms(1) by simp
qed


section \<open>The merged heap, written out\<close>

lemma merge_images_vertically_valid:
  assumes "image1 < length st" "image2 < length st"
    and "0 < width (st ! image1)" "0 < height (st ! image1)"
    and "0 < width (st ! image2)" "0 < height (st ! image2)"
    and "a = st ! image1" "b = st ! image2" "t = max (width a) (width b)"
    and "h1 = height a * t div width a" "h2 = height b * t div width b"
    and "r1 = resized L a t h1" "r2 = resized L b t h2"
  shows "merge_images_vertically L st image1 image2 =
      Inr (st @ [r1, r2, pasted L (pasted L (canvas L ''RGB'' t (h1 + h2)) r1 0 0) r2 0 h1],
           length st + 2)"
proof -
  have pos: "0 < width a" "0 < height a" "0 < width b" "0 < height b"
    using assms by simp_all
  have t: "1 \<le> t" "width a \<le> t" "width b \<le> t" using pos assms(9) by simp_all
  have h1: "1 \<le> h1" using scaled_ge[of "width a" "height a" t] pos t assms(10) by simp
  have h2: "1 \<le> h2" using scaled_ge[of "width b" "height b" t] pos t assms(11) by simp
  have d1: "int_truediv (height a * t) (width a) = Inr h1"
    using pos t assms(10) by (simp add: int_truediv_nonneg)
  have d2: "int_truediv (height b * t) (width b) = Inr h2"
    using pos t assms(11) by (simp add: int_truediv_nonneg)
  let ?st1 = "st @ [r1]" and ?st2 = "st @ [r1, r2]"
  let ?c0 = "canvas L ''RGB'' t (h1 + h2)"
  have s1: "Image_resize L st image1 (t, h1) = Inr (?st1, length st)"
    using t h1 assms(7,12) by (simp add: Image_resize_pos)
  have b1: "?st1 ! image2 = b" using assms(2,8) by (simp add: nth_append)
  have s2: "Image_resize L ?st1 image2 (t, h2) = Inr (?st2, Suc (length st))"
    using t h2 b1 Image_resize_pos[of t h2 L ?st1 image2] assms(13) by simp
  have g1: "?st2 ! length st = r1" and g2: "?st2 ! Suc (length st) = r2"
    by (simp_all add: nth_append)
  have hr: "height r1 = h1" "height r2 = h2" using assms(12,13) by simp_all
  have n: "Image_new L ?st2 ''RGB'' (t, h1 + h2) = Inr (?st2 @ [?c0], Suc (Suc (length st)))"
    using t h1 h2 Image_new_nonneg[of t "h1 + h2" L ?st2] by simp
  have p1: "Image_paste L (?st2 @ [?c0]) (Suc (Suc (length st))) (length st) (0, 0)
      = ?st2 @ [pasted L ?c0 r1 0 0]"
    using Image_paste_last[of "length st" ?st2 L ?c0 0 0] g1 by simp
  have p2: "Image_paste L (?st2 @ [pasted L ?c0 r1 0 0]) (Suc (Suc (length st)))
       (Suc (length st)) (0, h1)
      = ?st2 @ [pasted L (pasted L ?c0 r1 0 0) r2 0 h1]"
    using Image_paste_last[of "Suc (length st)" ?st2 L "pasted L ?c0 r1 0 0" 0 h1] g2
    by simp
  have g3: "(?st2 @ [pasted L ?c0 r1 0 0]) ! length st = r1"
    by (simp add: nth_append)
  have "merge_images_vertically L st image1 image2 =
      Inr (?st2 @ [pasted L (pasted L ?c0 r1 0 0) r2 0 h1], Suc (Suc (length st)))"
    unfolding merge_images_vertically_def Let_def
    unfolding assms(7)[symmetric] assms(8)[symmetric] assms(9)[symmetric]
    by (simp only: d1 s1 b1 d2 s2 g1 g2 hr n p1 p2 g3 sum.case prod.case)
  then show ?thesis by simp
qed

lemma merge_images_horizontally_valid:
  assumes "image1 < length st" "image2 < length st"
    and "0 < width (st ! image1)" "0 < height (st ! image1)"
    and "0 < width (st ! image2)" "0 < height (st ! image2)"
    and "a = st ! image1" "b = st ! image2" "t = max (height a) (height b)"
    and "w1 = width a * t div height a" "w2 = width b * t div height b"
    and "r1 = resized L a w1 t" "r2 = resized L b w2 t"
  shows "merge_images_horizontally L st image1 image2 =
      Inr (st @ [r1, r2, pasted L (pasted L (canvas L ''RGB'' (w1 + w2) t) r1 0 0) r2 w1 0],
           length st + 2)"
proof -
  have pos: "0 < width a" "0 < height a" "0 < width b" "0 < height b"
    using assms by simp_all
  have t: "1 \<le> t" "height a \<le> t" "height b \<le> t" using pos assms(9) by simp_all
  have w1: "1 \<le> w1" using scaled_ge[of "height a" "width a" t] pos t assms(10) by simp
  have w2: "1 \<le> w2" using scaled_ge[of "height b" "width b" t] pos t assms(11) by simp
  have d1: "int_truediv (width a * t) (height a) = Inr w1"
    using pos t assms(10) by (simp add: int_truediv_nonneg)
  have d2: "int_truediv (width b * t) (height b) = Inr w2"
    using pos t assms(11) by (simp add: int_truediv_nonneg)
  let ?st1 = "st @ [r1]" and ?st2 = "st @ [r1, r2]"
  let ?c0 = "canvas L ''RGB'' (w1 + w2) t"
  have s1: "Image_resize L st image1 (w1, t) = Inr (?st1, length st)"
    using t w1 assms(7,12) by (simp add: Image_resize_pos)
  have b1: "?st1 ! image2 = b" using assms(2,8) by (simp add: nth_append)
  have s2: "Image_resize L ?st1 image2 (w2, t) = Inr (?st2, Suc (length st))"
    using t w2 b1 Image_resize_pos[of w2 t L ?st1 image2] assms(13) by simp
  have g1: "?st2 ! length st = r1" and g2: "?st2 ! Suc (length st) = r2"
    by (simp_all add: nth_append)
  have wr: "width r1 = w1" "width r2 = w2" using assms(12,13) by simp_all
  have n: "Image_new L ?st2 ''RGB'' (w1 + w2, t) = Inr (?st2 @ [?c0], Suc (Suc (length st)))"
    using t w1 w2 Image_new_nonneg[of "w1 + w2" t L ?st2] by simp
  have p1: "Image_paste L (?st2 @ [?c0]) (Suc (Suc (length st))) (length st) (0, 0)
      = ?st2 @ [pasted L ?c0 r1 0 0]"
    using Image_paste_last[of "length st" ?st2 L ?c0 0 0] g1 by simp
  have p2: "Image_paste L (?st2 @ [pasted L ?c0 r1 0 0]) (Suc (Suc (length st)))
       (Suc (length st)) (w1, 0)
      = ?st2 @ [pasted L (pasted L ?c0 r1 0 0) r2 w1 0]"
    using Image_paste_last[of "Suc (length st)" ?st2 L "pasted L ?c0 r1 0 0" w1 0] g2
    by simp
  have g3: "(?st2 @ [pasted L ?c0 r1 0 0]) ! length st = r1"
    by (simp add: nth_append)
  have "merge_images_horizontally L st image1 image2 =
      Inr (?st2 @ [pasted L (pasted L ?c0 r1 0 0) r2 w1 0], Suc (Suc (length st)))"
    unfolding merge_images_horizontally_def Let_def
    unfolding assms(7)[symmetric] assms(8)[symmetric] assms(9)[symmetric]
    by (simp only: d1 s1 b1 d2 s2 g1 g2 wr n p1 p2 g3 sum.case prod.case)
  then show ?thesis by simp
qed

section \<open>Double precision does not change the quotient\<close>

lemma pow2_nat_add:
  "0 \<le> i \<Longrightarrow> 0 \<le> j \<Longrightarrow> (2::int) ^ nat (i + j) = 2 ^ nat i * 2 ^ nat j"
  by (simp add: nat_add_distrib power_add)

lemma floor_log2_lower:
  assumes "0 < a" "0 < b"
  shows "b * 2 ^ nat (floor_log2 a b) \<le> a * 2 ^ nat (- floor_log2 a b)"
proof -
  define d where "d = bitlen a - bitlen b"
  have la: "2 ^ nat (bitlen a - 1) \<le> a" and lb: "b < 2 ^ nat (bitlen b)"
    using bitlen_bounds[OF assms(1)] bitlen_bounds[OF assms(2)] by simp_all
  have l1: "1 \<le> bitlen a" "1 \<le> bitlen b"
    using assms bitlen_eq_zero_iff[of a] bitlen_eq_zero_iff[of b] bitlen_nonneg[of a]
      bitlen_nonneg[of b] by linarith+
  show ?thesis
  proof (cases "b * 2 ^ nat d \<le> a * 2 ^ nat (- d)")
    case True
    then show ?thesis by (simp add: floor_log2_def d_def[symmetric])
  next
    case False
    then have f: "floor_log2 a b = d - 1" by (simp add: floor_log2_def d_def[symmetric])
    show ?thesis
    proof (cases "1 \<le> d")
      case True
      have "b * 2 ^ nat (d - 1) \<le> 2 ^ nat (bitlen b) * 2 ^ nat (d - 1)"
        using lb by (simp add: mult_right_mono)
      also have "\<dots> = 2 ^ nat (bitlen b + (d - 1))"
        using l1 True by (simp add: pow2_nat_add)
      also have "bitlen b + (d - 1) = bitlen a - 1" by (simp add: d_def)
      finally have "b * 2 ^ nat (d - 1) \<le> a" using la by linarith
      then show ?thesis using True by (simp add: f)
    next
      case False
      then have d0: "0 \<le> 1 - d" by simp
      have "b \<le> 2 ^ nat (bitlen b)" using lb by simp
      also have "bitlen b = (bitlen a - 1) + (1 - d)" by (simp add: d_def)
      also have "(2::int) ^ nat ((bitlen a - 1) + (1 - d)) = 2 ^ nat (bitlen a - 1) * 2 ^ nat (1 - d)"
        using l1 d0 by (intro pow2_nat_add) simp_all
      also have "\<dots> \<le> a * 2 ^ nat (1 - d)" using la by (simp add: mult_right_mono)
      finally show ?thesis using False by (simp add: f)
    qed
  qed
qed

lemma floor_log2_upper:
  assumes "0 < a" "0 < b"
  shows "a * 2 ^ nat (- (floor_log2 a b + 1)) < b * 2 ^ nat (floor_log2 a b + 1)"
proof -
  define d where "d = bitlen a - bitlen b"
  have la: "a < 2 ^ nat (bitlen a)" and lb: "2 ^ nat (bitlen b - 1) \<le> b"
    using bitlen_bounds[OF assms(1)] bitlen_bounds[OF assms(2)] by simp_all
  have l1: "1 \<le> bitlen a" "1 \<le> bitlen b"
    using assms bitlen_eq_zero_iff[of a] bitlen_eq_zero_iff[of b] bitlen_nonneg[of a]
      bitlen_nonneg[of b] by linarith+
  show ?thesis
  proof (cases "b * 2 ^ nat d \<le> a * 2 ^ nat (- d)")
    case False
    then show ?thesis by (simp add: floor_log2_def d_def[symmetric])
  next
    case True
    then have f: "floor_log2 a b = d" by (simp add: floor_log2_def d_def[symmetric])
    show ?thesis
    proof (cases "0 \<le> d + 1")
      case True
      have "a < 2 ^ nat (bitlen a)" by (rule la)
      also have "bitlen a = (bitlen b - 1) + (d + 1)" by (simp add: d_def)
      also have "(2::int) ^ nat ((bitlen b - 1) + (d + 1)) = 2 ^ nat (bitlen b - 1) * 2 ^ nat (d + 1)"
        using l1 True by (intro pow2_nat_add) simp_all
      also have "\<dots> \<le> b * 2 ^ nat (d + 1)" using lb by (simp add: mult_right_mono)
      finally have "a < b * 2 ^ nat (d + 1)" .
      moreover have "nat (- (d + 1)) = 0" using True by simp
      ultimately show ?thesis by (simp add: f)
    next
      case False
      then have n: "0 \<le> - (d + 1)" by simp
      have "a * 2 ^ nat (- (d + 1)) < 2 ^ nat (bitlen a) * 2 ^ nat (- (d + 1))"
        using la by (simp add: mult_strict_right_mono)
      also have "\<dots> = 2 ^ nat (bitlen a + (- (d + 1)))"
        using l1 n by (simp add: pow2_nat_add)
      also have "bitlen a + (- (d + 1)) = bitlen b - 1" by (simp add: d_def)
      finally have "a * 2 ^ nat (- (d + 1)) < b" using lb by linarith
      moreover have "nat (d + 1) = 0" using False by simp
      ultimately show ?thesis by (simp add: f)
    qed
  qed
qed


lemma round_half_even_ge:
  assumes "0 < b" "N * b \<le> a"
  shows "N \<le> round_half_even a b"
proof -
  have "N * b div b \<le> a div b" using assms by (intro zdiv_mono1) simp_all
  then have "N \<le> a div b" using assms(1) by simp
  then show ?thesis by (simp add: round_half_even_def Let_def)
qed

lemma round_half_even_le:
  assumes "0 < b" "a \<le> N * b"
  shows "round_half_even a b \<le> N"
proof (cases "a div b < N")
  case True
  then show ?thesis by (simp add: round_half_even_def Let_def)
next
  case False
  have "a div b \<le> N * b div b" using assms by (intro zdiv_mono1) simp_all
  then have q: "a div b = N" using False assms(1) by simp
  have "a = a div b * b + a mod b" by simp
  then have "a mod b \<le> 0" using q assms(2) by simp
  moreover have "0 \<le> a mod b" using assms(1) by simp
  ultimately have "a mod b = 0" by simp
  then show ?thesis using q assms(1) by (simp add: round_half_even_def Let_def)
qed

lemma double_mantissa_exact:
  fixes x y :: int
  assumes "0 < x" "x \<le> 2 ^ 52" "0 < y"
  defines "k \<equiv> min 1074 (52 - floor_log2 x y)"
  defines "m \<equiv> round_half_even (x * 2 ^ nat k) (y * 2 ^ nat (- k))"
  shows "0 \<le> k" and "m < 2 ^ 1024 * 2 ^ nat k" and "m div 2 ^ nat k = x div y"
proof -
  define f where "f = floor_log2 x y"
  have lo: "y * 2 ^ nat f \<le> x * 2 ^ nat (- f)"
    unfolding f_def by (rule floor_log2_lower[OF assms(1,3)])
  have up: "x * 2 ^ nat (- (f + 1)) < y * 2 ^ nat (f + 1)"
    unfolding f_def by (rule floor_log2_upper[OF assms(1,3)])
  have f52: "f \<le> 52"
  proof (rule ccontr)
    assume "\<not> f \<le> 52"
    then have "53 \<le> f" by simp
    then have "(2::int) ^ 53 \<le> 2 ^ nat f" by (intro power_increasing) simp_all
    then have "1 * 2 ^ 53 \<le> y * 2 ^ nat f" using assms(3) by (intro mult_mono) simp_all
    moreover have "nat (- f) = 0" using \<open>53 \<le> f\<close> by simp
    ultimately show False using lo assms(2) by simp
  qed
  then show k0: "0 \<le> k" by (simp add: k_def f_def)
  then have nk: "nat (- k) = 0" by simp
  define K where "K = nat k"
  have m: "m = round_half_even (x * 2 ^ K) y" by (simp add: m_def nk K_def)
  define q r where "q = x div y" and "r = x mod y"
  have xqr: "x = q * y + r" and r: "0 \<le> r" "r < y" and q0: "0 \<le> q"
    using assms(1,3) by (simp_all add: q_def r_def pos_imp_zdiv_nonneg_iff)
  have lowm: "q * 2 ^ K \<le> m"
    unfolding m
  proof (rule round_half_even_ge[OF assms(3)])
    have "q * 2 ^ K * y \<le> (q * y + r) * 2 ^ K" using r by (simp add: algebra_simps)
    then show "q * 2 ^ K * y \<le> x * 2 ^ K" by (simp add: xqr)
  qed
  have upm: "m < (q + 1) * 2 ^ K"
  proof (cases "k = 52 - f")
    case True
    have yK: "y \<le> 2 ^ K"
    proof (cases "0 \<le> f")
      case True
      then have "y * 2 ^ nat f \<le> 2 ^ 52" using lo assms(2) by simp
      also have "(2::int) ^ 52 = 2 ^ nat (52 - f) * 2 ^ nat f"
        using True f52 pow2_nat_add[of "52 - f" f] by simp
      finally show ?thesis using \<open>k = 52 - f\<close> by (simp add: K_def)
    next
      case False
      then have "y \<le> x * 2 ^ nat (- f)" using lo by simp
      also have "\<dots> \<le> 2 ^ 52 * 2 ^ nat (- f)" using assms(2) by (simp add: mult_right_mono)
      also have "\<dots> = 2 ^ nat (52 + (- f))"
        using False pow2_nat_add[of 52 "- f"] by simp
      finally show ?thesis using \<open>k = 52 - f\<close> by (simp add: K_def)
    qed
    show ?thesis
    proof (cases "r = 0")
      case True
      then have "x * 2 ^ K \<le> (q * 2 ^ K) * y" by (simp add: xqr algebra_simps)
      then have "m \<le> q * 2 ^ K" unfolding m by (rule round_half_even_le[OF assms(3)])
      moreover have "q * 2 ^ K < (q + 1) * 2 ^ K" by (simp add: algebra_simps)
      ultimately show ?thesis by linarith
    next
      case False
      then have "r + 1 \<le> y" using r by simp
      have "x * 2 ^ K = (q + 1) * 2 ^ K * y - (y - r) * 2 ^ K"
        by (simp add: xqr algebra_simps)
      moreover have "1 * y \<le> (y - r) * 2 ^ K"
        using yK \<open>r + 1 \<le> y\<close> assms(3) by (intro mult_mono) simp_all
      ultimately have "x * 2 ^ K \<le> ((q + 1) * 2 ^ K - 1) * y"
        by (simp add: algebra_simps)
      then have "m \<le> (q + 1) * 2 ^ K - 1" unfolding m by (rule round_half_even_le[OF assms(3)])
      then show ?thesis by simp
    qed
  next
    case False
    then have kc: "k = 1074" and fs: "f < - 1022" by (simp_all add: k_def f_def[symmetric] min_def split: if_splits)
    have K: "K = 1074" by (simp add: K_def kc)
    have n1: "nat (f + 1) = 0" using fs by simp
    have "x * 2 ^ 1022 \<le> x * 2 ^ nat (- (f + 1))"
      using fs assms(1) by (intro mult_left_mono power_increasing) simp_all
    then have xy: "x * 2 ^ 1022 < y" using up n1 by simp
    have "x < y"
    proof -
      have "x * 1 \<le> x * 2 ^ 1022" using assms(1) by (intro mult_left_mono) simp_all
      then show ?thesis using xy by simp
    qed
    then have q: "q = 0" using assms(1) by (simp add: q_def div_pos_pos_trivial)
    have "x * 2 ^ 1074 = (x * 2 ^ 1022) * 2 ^ 52" by simp
    also have "\<dots> \<le> y * 2 ^ 52" using xy by (intro mult_right_mono) simp_all
    finally have "x * 2 ^ K \<le> 2 ^ 52 * y" by (simp add: K mult.commute)
    then have "m \<le> 2 ^ 52" unfolding m by (rule round_half_even_le[OF assms(3)])
    also have "(2::int) ^ 52 < 2 ^ 1074" by (intro power_strict_increasing) simp_all
    finally show ?thesis by (simp add: q K)
  qed
  have m0: "0 \<le> m" using lowm q0 by (meson mult_nonneg_nonneg order_trans zero_le_numeral zero_le_power)
  show "m div 2 ^ nat k = x div y"
  proof -
    have "m div 2 ^ K = q"
      using lowm upm
      by (intro int_div_pos_eq[of m "2 ^ K" q "m - q * 2 ^ K"]) (simp_all add: algebra_simps)
    then show ?thesis by (simp add: K_def q_def)
  qed
  show "m < 2 ^ 1024 * 2 ^ nat k"
  proof -
    define B :: int where "B = 2 ^ 1024"
    have "q * 1 \<le> q * y" using q0 assms(3) by (intro mult_left_mono) simp_all
    then have "q \<le> x" using xqr r by simp
    then have "q + 1 \<le> 2 ^ 52 + 1" using assms(2) by simp
    also have "\<dots> \<le> B" by (simp add: B_def)
    finally have "(q + 1) * 2 ^ K \<le> B * 2 ^ K" by (intro mult_right_mono) simp_all
    with upm have "m < B * 2 ^ K" by (rule less_le_trans)
    then show ?thesis unfolding B_def K_def .
  qed
qed

lemma int_truediv_double_exact:
  assumes "\<bar>a\<bar> \<le> 2 ^ 52"
  shows "int_truediv_double a b = int_truediv a b"
proof (cases "b = 0 \<or> a = 0")
  case True
  then show ?thesis by (auto simp: int_truediv_double_def int_truediv_def)
next
  case False
  then have p: "0 < \<bar>a\<bar>" "0 < \<bar>b\<bar>" and nz: "b \<noteq> 0" "a \<noteq> 0" by simp_all
  define k where "k = min 1074 (52 - floor_log2 \<bar>a\<bar> \<bar>b\<bar>)"
  define m where "m = round_half_even (\<bar>a\<bar> * 2 ^ nat k) (\<bar>b\<bar> * 2 ^ nat (- k))"
  have k0: "0 \<le> k" and ov: "m < 2 ^ 1024 * 2 ^ nat k" and q: "m div 2 ^ nat k = \<bar>a\<bar> div \<bar>b\<bar>"
    unfolding m_def k_def by (rule double_mantissa_exact[OF p(1) assms p(2)])+
  have nk: "(2::int) ^ nat (- k) = 1" using k0 by simp
  have no: "\<not> 2 ^ 1024 * 2 ^ nat k \<le> m * 2 ^ nat (- k)"
    unfolding nk using ov by (simp only: mult_1_right not_le)
  have "int_truediv_double a b =
      (if 2 ^ 1024 * 2 ^ nat k \<le> m * 2 ^ nat (- k) then Inl OverflowError
       else Inr (sgn a * sgn b * (m * 2 ^ nat (- k) div 2 ^ nat k)))"
    unfolding int_truediv_double_def Let_def k_def[symmetric] m_def[symmetric]
    by (simp only: nz if_False)
  also have "\<dots> = Inr (sgn a * sgn b * (m * 2 ^ nat (- k) div 2 ^ nat k))"
    by (simp only: no if_False)
  also have "\<dots> = Inr (sgn a * sgn b * (\<bar>a\<bar> div \<bar>b\<bar>))"
    unfolding nk by (simp only: mult_1_right q)
  finally show ?thesis using nz by (simp add: int_truediv_def)
qed

text \<open>
  Beyond the bound the two differ: \<open>(2 ^ 54 - 1) / 2 ^ 27\<close> lies just below
  \<open>2 ^ 27\<close>, and the nearest double is \<open>2 ^ 27\<close> itself.
\<close>

lemma int_truediv_double_beyond:
  "int_truediv_double (2 ^ 54 - 1) (2 ^ 27) = Inr (2 ^ 27)"
  "int_truediv (2 ^ 54 - 1) (2 ^ 27) = Inr (2 ^ 27 - 1)"
  by code_simp+



section \<open>A merge on arbitrary images\<close>

lemma merge_images_vertically_general:
  assumes "i1 < length st" "i2 < length st" "st ! i1 = a" "st ! i2 = b"
  shows "merge_images_vertically L st i1 i2 =
    (let t = max (width a) (width b) in
     case int_truediv (height a * t) (width a) of Inl e \<Rightarrow> Inl e | Inr h1 \<Rightarrow>
     if (width a, height a) \<noteq> (t, h1) \<and> (t < 1 \<or> h1 < 1)
     then Inl (PillowError ''height and width must be > 0'') else
     (case int_truediv (height b * t) (width b) of Inl e \<Rightarrow> Inl e | Inr h2 \<Rightarrow>
     if (width b, height b) \<noteq> (t, h2) \<and> (t < 1 \<or> h2 < 1)
     then Inl (PillowError ''height and width must be > 0'') else
     if t < 0 \<or> h1 + h2 < 0 then Inl (PillowError ''Width and height must be >= 0'') else
     Inr (st @ [resized L a t h1, resized L b t h2,
            pasted L (pasted L (canvas L ''RGB'' t (h1 + h2)) (resized L a t h1) 0 0)
              (resized L b t h2) 0 h1], length st + 2)))"
proof -
  define t where "t = max (width a) (width b)"
  show ?thesis
  proof (cases "int_truediv (height a * t) (width a)")
    case (Inl e)
    then show ?thesis
      using assms by (simp add: merge_images_vertically_def Let_def t_def)
  next
    case d1: (Inr h1)
    define r1 where "r1 = resized L a t h1"
    show ?thesis
    proof (cases "(width a, height a) \<noteq> (t, h1) \<and> (t < 1 \<or> h1 < 1)")
      case True
      then have "Image_resize L st i1 (t, h1) = Inl (PillowError ''height and width must be > 0'')"
        using assms by (simp add: Image_resize_def Let_def)
      then show ?thesis
        using assms d1 True by (auto simp: merge_images_vertically_def Let_def t_def[symmetric])
    next
      case ok1: False
      then have s1: "Image_resize L st i1 (t, h1) = Inr (st @ [r1], length st)"
        using assms by (simp add: Image_resize_def Let_def r1_def)
      have b1: "(st @ [r1]) ! i2 = b" using assms by (simp add: nth_append)
      show ?thesis
      proof (cases "int_truediv (height b * t) (width b)")
        case (Inl e)
        then show ?thesis
          using assms d1 ok1 s1 b1
          by (auto simp: merge_images_vertically_def Let_def t_def[symmetric])
      next
        case d2: (Inr h2)
        define r2 where "r2 = resized L b t h2"
        show ?thesis
        proof (cases "(width b, height b) \<noteq> (t, h2) \<and> (t < 1 \<or> h2 < 1)")
          case True
          then have "Image_resize L (st @ [r1]) i2 (t, h2)
              = Inl (PillowError ''height and width must be > 0'')"
            using b1 by (simp add: Image_resize_def Let_def)
          then show ?thesis
            using assms d1 ok1 s1 b1 d2 True
            by (auto simp: merge_images_vertically_def Let_def t_def[symmetric])
        next
          case ok2: False
          then have s2: "Image_resize L (st @ [r1]) i2 (t, h2) = Inr (st @ [r1, r2], Suc (length st))"
            using b1 by (simp add: Image_resize_def Let_def r2_def)
          have g: "(st @ [r1, r2]) ! length st = r1" "(st @ [r1, r2]) ! Suc (length st) = r2"
            by (simp_all add: nth_append)
          have hr: "height r1 = h1" "height r2 = h2" by (simp_all add: r1_def r2_def)
          show ?thesis
          proof (cases "t < 0 \<or> h1 + h2 < 0")
            case True
            then have "Image_new L (st @ [r1, r2]) ''RGB'' (t, h1 + h2)
                = Inl (PillowError ''Width and height must be >= 0'')"
              by (simp add: Image_new_def)
            then show ?thesis
              using d1 ok1 s1 b1 d2 ok2 s2 g hr True assms(3,4)
              by (auto simp: merge_images_vertically_def Let_def t_def[symmetric])
          next
            case False
            let ?c0 = "canvas L ''RGB'' t (h1 + h2)"
            have n: "Image_new L (st @ [r1, r2]) ''RGB'' (t, h1 + h2)
                = Inr ((st @ [r1, r2]) @ [?c0], Suc (Suc (length st)))"
              using False by (simp add: Image_new_def)
            have p1: "Image_paste L ((st @ [r1, r2]) @ [?c0]) (Suc (Suc (length st))) (length st) (0, 0)
                = (st @ [r1, r2]) @ [pasted L ?c0 r1 0 0]"
              using Image_paste_last[of "length st" "st @ [r1, r2]" L ?c0 0 0] g by simp
            have p2: "Image_paste L ((st @ [r1, r2]) @ [pasted L ?c0 r1 0 0]) (Suc (Suc (length st)))
                (Suc (length st)) (0, h1)
                = (st @ [r1, r2]) @ [pasted L (pasted L ?c0 r1 0 0) r2 0 h1]"
              using Image_paste_last[of "Suc (length st)" "st @ [r1, r2]" L "pasted L ?c0 r1 0 0" 0 h1] g
              by simp
            have g3: "((st @ [r1, r2]) @ [pasted L ?c0 r1 0 0]) ! length st = r1"
              by (simp add: nth_append)
            have "merge_images_vertically L st i1 i2 =
                Inr ((st @ [r1, r2]) @ [pasted L (pasted L ?c0 r1 0 0) r2 0 h1], Suc (Suc (length st)))"
              unfolding merge_images_vertically_def Let_def assms(3,4) t_def[symmetric]
              by (simp only: d1 s1 b1 d2 s2 g hr n p1 p2 g3 sum.case prod.case)
            then show ?thesis
              using d1 d2 ok1 ok2 False
              by (auto simp: Let_def t_def[symmetric] r1_def r2_def)
          qed
        qed
      qed
    qed
  qed
qed

lemma merge_images_horizontally_general:
  assumes "i1 < length st" "i2 < length st" "st ! i1 = a" "st ! i2 = b"
  shows "merge_images_horizontally L st i1 i2 =
    (let t = max (height a) (height b) in
     case int_truediv (width a * t) (height a) of Inl e \<Rightarrow> Inl e | Inr w1 \<Rightarrow>
     if (width a, height a) \<noteq> (w1, t) \<and> (w1 < 1 \<or> t < 1)
     then Inl (PillowError ''height and width must be > 0'') else
     (case int_truediv (width b * t) (height b) of Inl e \<Rightarrow> Inl e | Inr w2 \<Rightarrow>
     if (width b, height b) \<noteq> (w2, t) \<and> (w2 < 1 \<or> t < 1)
     then Inl (PillowError ''height and width must be > 0'') else
     if w1 + w2 < 0 \<or> t < 0 then Inl (PillowError ''Width and height must be >= 0'') else
     Inr (st @ [resized L a w1 t, resized L b w2 t,
            pasted L (pasted L (canvas L ''RGB'' (w1 + w2) t) (resized L a w1 t) 0 0)
              (resized L b w2 t) w1 0], length st + 2)))"
proof -
  define t where "t = max (height a) (height b)"
  show ?thesis
  proof (cases "int_truediv (width a * t) (height a)")
    case (Inl e)
    then show ?thesis
      using assms by (simp add: merge_images_horizontally_def Let_def t_def)
  next
    case d1: (Inr w1)
    define r1 where "r1 = resized L a w1 t"
    show ?thesis
    proof (cases "(width a, height a) \<noteq> (w1, t) \<and> (w1 < 1 \<or> t < 1)")
      case True
      then have "Image_resize L st i1 (w1, t) = Inl (PillowError ''height and width must be > 0'')"
        using assms by (simp add: Image_resize_def Let_def)
      then show ?thesis
        using assms d1 True by (auto simp: merge_images_horizontally_def Let_def t_def[symmetric])
    next
      case ok1: False
      then have s1: "Image_resize L st i1 (w1, t) = Inr (st @ [r1], length st)"
        using assms by (simp add: Image_resize_def Let_def r1_def)
      have b1: "(st @ [r1]) ! i2 = b" using assms by (simp add: nth_append)
      show ?thesis
      proof (cases "int_truediv (width b * t) (height b)")
        case (Inl e)
        then show ?thesis
          using assms d1 ok1 s1 b1
          by (auto simp: merge_images_horizontally_def Let_def t_def[symmetric])
      next
        case d2: (Inr w2)
        define r2 where "r2 = resized L b w2 t"
        show ?thesis
        proof (cases "(width b, height b) \<noteq> (w2, t) \<and> (w2 < 1 \<or> t < 1)")
          case True
          then have "Image_resize L (st @ [r1]) i2 (w2, t)
              = Inl (PillowError ''height and width must be > 0'')"
            using b1 by (simp add: Image_resize_def Let_def)
          then show ?thesis
            using assms d1 ok1 s1 b1 d2 True
            by (auto simp: merge_images_horizontally_def Let_def t_def[symmetric])
        next
          case ok2: False
          then have s2: "Image_resize L (st @ [r1]) i2 (w2, t) = Inr (st @ [r1, r2], Suc (length st))"
            using b1 by (simp add: Image_resize_def Let_def r2_def)
          have g: "(st @ [r1, r2]) ! length st = r1" "(st @ [r1, r2]) ! Suc (length st) = r2"
            by (simp_all add: nth_append)
          have hr: "width r1 = w1" "width r2 = w2" by (simp_all add: r1_def r2_def)
          show ?thesis
          proof (cases "w1 + w2 < 0 \<or> t < 0")
            case True
            then have "Image_new L (st @ [r1, r2]) ''RGB'' (w1 + w2, t)
                = Inl (PillowError ''Width and height must be >= 0'')"
              by (simp add: Image_new_def)
            then show ?thesis
              using d1 ok1 s1 b1 d2 ok2 s2 g hr True assms(3,4)
              by (auto simp: merge_images_horizontally_def Let_def t_def[symmetric])
          next
            case False
            let ?c0 = "canvas L ''RGB'' (w1 + w2) t"
            have n: "Image_new L (st @ [r1, r2]) ''RGB'' (w1 + w2, t)
                = Inr ((st @ [r1, r2]) @ [?c0], Suc (Suc (length st)))"
              using False by (simp add: Image_new_def)
            have p1: "Image_paste L ((st @ [r1, r2]) @ [?c0]) (Suc (Suc (length st))) (length st) (0, 0)
                = (st @ [r1, r2]) @ [pasted L ?c0 r1 0 0]"
              using Image_paste_last[of "length st" "st @ [r1, r2]" L ?c0 0 0] g by simp
            have p2: "Image_paste L ((st @ [r1, r2]) @ [pasted L ?c0 r1 0 0]) (Suc (Suc (length st)))
                (Suc (length st)) (w1, 0)
                = (st @ [r1, r2]) @ [pasted L (pasted L ?c0 r1 0 0) r2 w1 0]"
              using Image_paste_last[of "Suc (length st)" "st @ [r1, r2]" L "pasted L ?c0 r1 0 0" w1 0] g
              by simp
            have g3: "((st @ [r1, r2]) @ [pasted L ?c0 r1 0 0]) ! length st = r1"
              by (simp add: nth_append)
            have "merge_images_horizontally L st i1 i2 =
                Inr ((st @ [r1, r2]) @ [pasted L (pasted L ?c0 r1 0 0) r2 w1 0], Suc (Suc (length st)))"
              unfolding merge_images_horizontally_def Let_def assms(3,4) t_def[symmetric]
              by (simp only: d1 s1 b1 d2 s2 g hr n p1 p2 g3 sum.case prod.case)
            then show ?thesis
              using d1 d2 ok1 ok2 False
              by (auto simp: Let_def t_def[symmetric] r1_def r2_def)
          qed
        qed
      qed
    qed
  qed
qed

section \<open>The merged raster does not depend on the heap\<close>









lemma merge_images_vertically_error:
  assumes "i1 < length st" "i2 < length st"
    and "merge_images_vertically L st i1 i2 = Inl e"
  shows "e = ZeroDivisionError \<or> (\<exists>msg. e = PillowError msg)"
  using assms(3) unfolding merge_images_vertically_general[OF assms(1,2) refl refl]
  by (auto simp: Let_def int_truediv_def split: sum.splits if_splits)

lemma merge_images_horizontally_error:
  assumes "i1 < length st" "i2 < length st"
    and "merge_images_horizontally L st i1 i2 = Inl e"
  shows "e = ZeroDivisionError \<or> (\<exists>msg. e = PillowError msg)"
  using assms(3) unfolding merge_images_horizontally_general[OF assms(1,2) refl refl]
  by (auto simp: Let_def int_truediv_def split: sum.splits if_splits)

lemma call_decoded:
  assumes "decode L (first_image_in_bytes input_data) = Inr im1"
    and "decode L (second_image_in_bytes input_data) = Inr im2"
  shows "call L st input_data =
     (case (if orientation input_data = Member VERTICAL
              then merge_images_vertically L (st @ [im1, im2]) (length st) (Suc (length st))
            else if orientation input_data = Member HORIZONTAL
              then merge_images_horizontally L (st @ [im1, im2]) (length st) (Suc (length st))
            else Inl (ValueError ''Unsupported merge orientation'')) of
        Inl e \<Rightarrow> Inl e
      | Inr (st3, merged_image) \<Rightarrow>
      (case image_to_bytes L st3 merged_image of
        Inl e \<Rightarrow> Inl e
      | Inr b \<Rightarrow> Inr (st3, merged_image, b)))"
  using assms by (simp add: call_def Image_open_def)


section \<open>A zero in the dividing dimension\<close>



section \<open>Vertical and horizontal merge\<close>






section \<open>How the resized dimension is rounded\<close>




section \<open>Images with a zero dimension\<close>




section \<open>The orientation\<close>

text \<open>
  Claim C5. For two buffers that decode: when the orientation is neither of the two
  members of \<^verbatim>\<open>MergeOrientation\<close>, \<^verbatim>\<open>__call__\<close> ends in its unsupported-orientation
  error, \<^verbatim>\<open>ValueError("Unsupported merge orientation")\<close>, and returns nothing; when the
  orientation is one of the two members, the run does not end in that error.
\<close>

theorem C5_unsupported_orientation:
  assumes "decode L (first_image_in_bytes input_data) = Inr first_image"
    and "decode L (second_image_in_bytes input_data) = Inr second_image"
  shows
    "(orientation input_data \<noteq> Member HORIZONTAL \<and> orientation input_data \<noteq> Member VERTICAL
        \<longrightarrow> call L st input_data = Inl (ValueError ''Unsupported merge orientation'')) \<and>
     (orientation input_data = Member HORIZONTAL \<or> orientation input_data = Member VERTICAL
        \<longrightarrow> call L st input_data \<noteq> Inl (ValueError ''Unsupported merge orientation''))"
proof (intro conjI impI)
  assume "orientation input_data \<noteq> Member HORIZONTAL \<and> orientation input_data \<noteq> Member VERTICAL"
  then show "call L st input_data = Inl (ValueError ''Unsupported merge orientation'')"
    unfolding call_decoded[OF assms] by simp
next
  assume o: "orientation input_data = Member HORIZONTAL \<or> orientation input_data = Member VERTICAL"
  let ?st2 = "st @ [first_image, second_image]"
  have refs: "length st < length ?st2" "Suc (length st) < length ?st2" by simp_all
  show "call L st input_data \<noteq> Inl (ValueError ''Unsupported merge orientation'')"
  proof
    assume c: "call L st input_data = Inl (ValueError ''Unsupported merge orientation'')"
    from o show False
    proof
      assume h: "orientation input_data = Member HORIZONTAL"
      show False
      proof (cases "merge_images_horizontally L ?st2 (length st) (Suc (length st))")
        case (Inl e)
        with c h have "e = ValueError ''Unsupported merge orientation''"
          unfolding call_decoded[OF assms] by simp
        with merge_images_horizontally_error[OF refs Inl] show False by auto
      next
        case (Inr r)
        with c h show False
          unfolding call_decoded[OF assms]
          by (auto simp: image_to_bytes_def split: prod.splits sum.splits)
      qed
    next
      assume v: "orientation input_data = Member VERTICAL"
      show False
      proof (cases "merge_images_vertically L ?st2 (length st) (Suc (length st))")
        case (Inl e)
        with c v have "e = ValueError ''Unsupported merge orientation''"
          unfolding call_decoded[OF assms] by simp
        with merge_images_vertically_error[OF refs Inl] show False by auto
      next
        case (Inr r)
        with c v show False
          unfolding call_decoded[OF assms]
          by (auto simp: image_to_bytes_def split: prod.splits sum.splits)
      qed
    qed
  qed
qed

text \<open>
  C5 at two buffers of 3 \<times> 3 and 4 \<times> 4, with an orientation that is no member of
  the enum and with each of the two members.
\<close>

theorem C5_unsupported_orientation_witness:
  "call toy_pillow []
     \<lparr>first_image_in_bytes = [3, 3], second_image_in_bytes = [4, 4],
       orientation = Other ''diagonal''\<rparr> = Inl (ValueError ''Unsupported merge orientation'') \<and>
   call toy_pillow []
     \<lparr>first_image_in_bytes = [3, 3], second_image_in_bytes = [4, 4],
       orientation = Member HORIZONTAL\<rparr> \<noteq> Inl (ValueError ''Unsupported merge orientation'') \<and>
   call toy_pillow []
     \<lparr>first_image_in_bytes = [3, 3], second_image_in_bytes = [4, 4],
       orientation = Member VERTICAL\<rparr> \<noteq> Inl (ValueError ''Unsupported merge orientation'')"
  using
    C5_unsupported_orientation[where L = toy_pillow and st = "[]" and first_image = "\<lparr>width = 3, height = 3, mode = ''RGBA'', pixel = (\<lambda>x y. 128::nat)\<rparr>"
      and second_image = "\<lparr>width = 4, height = 4, mode = ''RGBA'', pixel = (\<lambda>x y. 128::nat)\<rparr>"
      and input_data = "\<lparr>first_image_in_bytes = [3, 3], second_image_in_bytes = [4, 4],
       orientation = Other ''diagonal''\<rparr>"]
    C5_unsupported_orientation[where L = toy_pillow and st = "[]" and first_image = "\<lparr>width = 3, height = 3, mode = ''RGBA'', pixel = (\<lambda>x y. 128::nat)\<rparr>"
      and second_image = "\<lparr>width = 4, height = 4, mode = ''RGBA'', pixel = (\<lambda>x y. 128::nat)\<rparr>"
      and input_data = "\<lparr>first_image_in_bytes = [3, 3], second_image_in_bytes = [4, 4],
       orientation = Member HORIZONTAL\<rparr>"]
    C5_unsupported_orientation[where L = toy_pillow and st = "[]" and first_image = "\<lparr>width = 3, height = 3, mode = ''RGBA'', pixel = (\<lambda>x y. 128::nat)\<rparr>"
      and second_image = "\<lparr>width = 4, height = 4, mode = ''RGBA'', pixel = (\<lambda>x y. 128::nat)\<rparr>"
      and input_data = "\<lparr>first_image_in_bytes = [3, 3], second_image_in_bytes = [4, 4],
       orientation = Member VERTICAL\<rparr>"]
  by (simp add: toy_pillow_def)

section \<open>The worked example\<close>

text \<open>
  Claim C6. For an image A of 100 \<times> 200 and an image B of 50 \<times> 50, whatever their
  modes and pixels: the vertical merge keeps A as it is, resizes B to 100 \<times> 100 and
  returns a 100 \<times> 300 image; the horizontal merge keeps A as it is, resizes B to
  200 \<times> 200 and returns a 300 \<times> 200 image.
\<close>

theorem C6_example:
  "(let A = \<lparr>width = 100, height = 200, mode = mA, pixel = pA\<rparr>;
        B = \<lparr>width = 50, height = 50, mode = mB, pixel = pB\<rparr>;
        vertical = merge_images_vertically L [A, B] 0 1;
        horizontal = merge_images_horizontally L [A, B] 0 1
    in object_at 2 vertical = Inr A \<and>
       size_at 3 vertical = Inr (100, 100) \<and>
       merged_size vertical = Inr (100, 300) \<and>
       object_at 2 horizontal = Inr A \<and>
       size_at 3 horizontal = Inr (200, 200) \<and>
       merged_size horizontal = Inr (300, 200))"
proof -
  define A where "A = \<lparr>width = 100, height = 200, mode = mA, pixel = pA\<rparr>"
  define B where "B = \<lparr>width = 50, height = 50, mode = mB, pixel = pB\<rparr>"
  have v: "merge_images_vertically L [A, B] 0 1 =
      Inr ([A, B] @ [resized L A 100 200, resized L B 100 100,
           pasted L (pasted L (canvas L ''RGB'' 100 (200 + 100)) (resized L A 100 200) 0 0)
             (resized L B 100 100) 0 200], length [A, B] + 2)"
    by (rule merge_images_vertically_valid) (simp_all add: A_def B_def)
  have h: "merge_images_horizontally L [A, B] 0 1 =
      Inr ([A, B] @ [resized L A 100 200, resized L B 200 200,
           pasted L (pasted L (canvas L ''RGB'' (100 + 200) 200) (resized L A 100 200) 0 0)
             (resized L B 200 200) 100 0], length [A, B] + 2)"
    by (rule merge_images_horizontally_valid) (simp_all add: A_def B_def)
  have a: "resized L A 100 200 = A" by (simp add: resized_def A_def)
  show ?thesis
    unfolding Let_def A_def[symmetric] B_def[symmetric] v h a
    by (simp add: object_at_def size_at_def merged_size_def)
qed

section \<open>What a merge allocates and what it leaves alone\<close>



section \<open>The mode of the result\<close>



section \<open>Determinism\<close>


section \<open>The image that already has the target dimension\<close>



end
